theory Spec2Isabelle
  imports Main
begin

section \<open>The Google Drive driver: data\<close>

text \<open>
  The driver of \<open>src/module/driver/googleDrive.js\<close> is a class with three fields
  (\<open>oAuth2Client\<close>, \<open>driveClient\<close>, \<open>_data\<close>) and five methods. JavaScript objects
  become records, a value that may be \<open>undefined\<close> or \<open>null\<close> becomes an option
  (\<open>None\<close> for both), a promise becomes its outcome, and everything outside the
  class (the clock, the Google client, the network, the logger) is explicit.
\<close>

record token =
  expiry_date :: "int option"
  payload :: string

record oauth_config =
  client_id :: string
  client_secret :: string
  redirect_uri :: string
  token :: "token option"
  code :: "string option"

record drive_config =
  driveId :: string

record config =
  oAuth :: "oauth_config option"
  drive :: "drive_config option"

record oauth_client =
  c_client_id :: string
  c_client_secret :: string
  c_redirect_uri :: string
  credentials :: "token option"

record drive_client =
  version :: string
  auth_bound :: bool

record driver =
  oAuth2Client :: "oauth_client option"
  driveClient :: "drive_client option"
  this_data :: config

text \<open>
  What a call can throw, or a promise be rejected with: an \<open>Error\<close> object with its
  message, carrying the pair (attemptNumber, retriesLeft) once the retry wrapper has
  decorated it; a \<open>TypeError\<close>; or a value that is no Error at all (the driver rejects
  with plain strings), kept as its text.
\<close>

datatype thrown =
    Error string "(nat \<times> int) option"
  | TypeError string
  | Value string

datatype 'a promise = Resolved 'a | Rejected thrown

record list_params =
  p_driveId :: string
  p_corpora :: string
  p_includeItemsFromAllDrives :: bool
  p_supportsTeamDrives :: bool
  p_pageSize :: nat
  p_orderBy :: string
  p_q :: string
  p_fields :: string
  p_pageToken :: "string option"

record get_params =
  g_corpora :: string
  g_includeItemsFromAllDrives :: bool
  g_supportsTeamDrives :: bool
  g_driveId :: string
  g_alt :: string
  g_fileId :: string
  g_responseType :: string

record 'f list_response =
  nextPageToken :: "string option"
  files :: "'f list"

text \<open>
  The network calls the driver issues through the Google client, in the order issued.
  This list is the only instrumentation of the model: the source does not keep it.
\<close>

datatype call =
    FilesList list_params
  | FilesGet get_params
  | GetToken "string option"
  | RefreshAccessToken

datatype level = info | debug | error

datatype log_msg =
    RetrievingAccessToken
  | ErrorRetrievingAccessToken thrown
  | GotAccessToken
  | TokenDump token
  | TokenExpiryDate "int option"
  | RefreshingAccessToken
  | ErrorRefreshingAccessToken thrown
  | GettingFullFileList string
  | GettingPage nat
  | AttemptFailed "nat option" "int option"
  | GotMetadatas nat
  | DownloadingFile string
  | HaventAuthorizeYet

record 'w env =
  world :: 'w
  requests :: "call list"
  logs :: "(level \<times> log_msg) list"

text \<open>
  The remote side: each capability of the Google client takes the state of the world
  and answers with an error or a result, and a new state of the world. The driver
  never looks inside \<open>'w\<close>.
\<close>

record ('w, 'f) remote =
  files_list :: "'w \<Rightarrow> list_params \<Rightarrow> (thrown + 'f list_response) \<times> 'w"
  files_get :: "'w \<Rightarrow> get_params \<Rightarrow> (thrown + string) \<times> 'w"
  getToken :: "'w \<Rightarrow> oauth_client \<Rightarrow> string option \<Rightarrow> (thrown + token) \<times> 'w"
  refreshAccessToken :: "'w \<Rightarrow> oauth_client \<Rightarrow> (thrown + token) \<times> 'w"

definition logger :: "level \<Rightarrow> log_msg \<Rightarrow> 'w env \<Rightarrow> 'w env" where
  "logger l m env = env\<lparr>logs := logs env @ [(l, m)]\<rparr>"

definition issue :: "call \<Rightarrow> ('w \<Rightarrow> 'r \<times> 'w) \<Rightarrow> 'w env \<Rightarrow> 'r \<times> 'w env" where
  "issue c f env =
     (case f (world env) of
        (r, w) \<Rightarrow> (r, env\<lparr>world := w, requests := requests env @ [c]\<rparr>))"

definition truthy :: "string option \<Rightarrow> bool" where
  "truthy v = (case v of None \<Rightarrow> False | Some s \<Rightarrow> s \<noteq> [])"

section \<open>The retry wrapper\<close>

text \<open>
  \<open>pRetry\<close> is the npm package p-retry (version 4, the one \<open>require\<close> can load), built
  on the package retry; neither is part of the repository. The model follows their
  documented behaviour. The input is run; a result resolves the promise. A thrown
  non-Error rejects with a TypeError and a thrown TypeError rejects as it is, both at
  once. Any other Error is decorated with \<open>attemptNumber\<close> (counted from 1) and
  \<open>retriesLeft = retries - (attemptNumber - 1)\<close>, handed to \<open>onFailedAttempt\<close>, and
  recorded; the input is run again while one of the \<open>retries\<close> timeouts is left, and
  after that the promise rejects with the main error: the recorded error whose message
  occurred most often, the latest one on a tie. The waiting between attempts is real
  time and is left out.
\<close>

fun message :: "thrown \<Rightarrow> string option" where
  "message (Error m d) = Some m"
| "message (TypeError m) = Some m"
| "message (Value v) = None"

fun attemptNumber :: "thrown \<Rightarrow> nat option" where
  "attemptNumber (Error m d) = map_option fst d"
| "attemptNumber e = None"

fun retriesLeft :: "thrown \<Rightarrow> int option" where
  "retriesLeft (Error m d) = map_option snd d"
| "retriesLeft e = None"

fun decorateErrorWithCounts :: "thrown \<Rightarrow> nat \<Rightarrow> nat \<Rightarrow> thrown" where
  "decorateErrorWithCounts (Error m d) n retries =
     Error m (Some (n, int retries - (int n - 1)))"
| "decorateErrorWithCounts e n retries = e"

fun mainError_loop ::
  "thrown list \<Rightarrow> (string option \<Rightarrow> nat) \<Rightarrow> thrown option \<Rightarrow> nat \<Rightarrow> thrown option" where
  "mainError_loop [] counts mainErr mainCount = mainErr"
| "mainError_loop (e # es) counts mainErr mainCount =
     (let count = counts (message e) + 1;
          counts' = counts(message e := count)
      in if count \<ge> mainCount then mainError_loop es counts' (Some e) count
         else mainError_loop es counts' mainErr mainCount)"

definition mainError :: "thrown list \<Rightarrow> thrown option" where
  "mainError errors = mainError_loop errors (\<lambda>m. 0) None 0"

datatype 'a attempt = Settled "thrown + 'a" | Failed thrown

definition run_attempt ::
  "('s \<Rightarrow> (thrown + 'a) \<times> 's) \<Rightarrow> (thrown \<Rightarrow> 's \<Rightarrow> 's) \<Rightarrow> nat \<Rightarrow> nat \<Rightarrow> 's
     \<Rightarrow> 'a attempt \<times> 's" where
  "run_attempt input onFailedAttempt retries n s =
     (case input s of
        (Inr v, s1) \<Rightarrow> (Settled (Inr v), s1)
      | (Inl (Value v), s1) \<Rightarrow>
          (Settled (Inl (TypeError (''Non-error was thrown: '' @ [CHR 0x22] @ v
              @ [CHR 0x22] @ ''. You should only throw errors.''))), s1)
      | (Inl (TypeError m), s1) \<Rightarrow> (Settled (Inl (TypeError m)), s1)
      | (Inl (Error m d), s1) \<Rightarrow>
          (let e = decorateErrorWithCounts (Error m d) n retries
           in (Failed e, onFailedAttempt e s1)))"

definition reject_main :: "thrown list \<Rightarrow> thrown" where
  "reject_main errors = (case mainError errors of Some e \<Rightarrow> e | None \<Rightarrow> Value ''null'')"

fun pRetry_from ::
  "('s \<Rightarrow> (thrown + 'a) \<times> 's) \<Rightarrow> (thrown \<Rightarrow> 's \<Rightarrow> 's) \<Rightarrow> nat \<Rightarrow> nat \<Rightarrow> thrown list
     \<Rightarrow> nat \<Rightarrow> 's \<Rightarrow> (thrown + 'a) \<times> 's" where
  "pRetry_from input onFailedAttempt retries 0 errors n s =
     (case run_attempt input onFailedAttempt retries n s of
        (Settled r, s') \<Rightarrow> (r, s')
      | (Failed e, s') \<Rightarrow> (Inl (reject_main (errors @ [e])), s'))"
| "pRetry_from input onFailedAttempt retries (Suc timeouts) errors n s =
     (case run_attempt input onFailedAttempt retries n s of
        (Settled r, s') \<Rightarrow> (r, s')
      | (Failed e, s') \<Rightarrow>
          pRetry_from input onFailedAttempt retries timeouts (errors @ [e]) (n + 1) s')"

definition pRetry ::
  "('s \<Rightarrow> (thrown + 'a) \<times> 's) \<Rightarrow> (thrown \<Rightarrow> 's \<Rightarrow> 's) \<Rightarrow> nat \<Rightarrow> 's \<Rightarrow> (thrown + 'a) \<times> 's" where
  "pRetry input onFailedAttempt retries s =
     pRetry_from input onFailedAttempt retries retries [] 1 s"

section \<open>The driver\<close>

text \<open>
  \<open>new google.auth.OAuth2(...)\<close> starts with empty credentials \<open>{}\<close>, and
  \<open>setCredentials\<close> stores what it is given, \<open>undefined\<close> included.
\<close>

definition new_OAuth2 :: "string \<Rightarrow> string \<Rightarrow> string \<Rightarrow> oauth_client" where
  "new_OAuth2 cid secret uri =
     \<lparr>c_client_id = cid, c_client_secret = secret, c_redirect_uri = uri,
      credentials = Some \<lparr>expiry_date = None, payload = []\<rparr>\<rparr>"

definition setCredentials :: "token option \<Rightarrow> oauth_client \<Rightarrow> oauth_client" where
  "setCredentials t c = c\<lparr>credentials := t\<rparr>"

definition or_default :: "string option \<Rightarrow> string \<Rightarrow> string" where
  \<comment> \<open>\<open>v || d\<close> and \<open>v ? v : d\<close> on a string that may be missing: the empty string is falsy\<close>
  "or_default v d = (case v of None \<Rightarrow> d | Some s \<Rightarrow> if s = [] then d else s)"

definition constructor :: "nat \<Rightarrow> config option \<Rightarrow> driver" where
  "constructor ident data0 =
     (let data = (case data0 of None \<Rightarrow> \<lparr>oAuth = None, drive = None\<rparr> | Some d \<Rightarrow> d);
          client = (case oAuth data of
                      None \<Rightarrow> None
                    | Some a \<Rightarrow> Some (setCredentials (token a)
                        (new_OAuth2 (client_id a) (client_secret a) (redirect_uri a))));
          dclient = (case drive data of
                       None \<Rightarrow> None
                     | Some d \<Rightarrow> Some \<lparr>version = ''v3'', auth_bound = (client \<noteq> None)\<rparr>)
      in \<lparr>oAuth2Client = client, driveClient = dclient, this_data = data\<rparr>)"

definition checkAuthorizationStatus :: "driver \<Rightarrow> 'w env \<Rightarrow> bool \<times> 'w env" where
  "checkAuthorizationStatus this env =
     (if oAuth2Client this = None \<or> driveClient this = None
      then (False, logger error HaventAuthorizeYet env)
      else (True, env))"

definition authorizeWithCode ::
  "('w, 'f) remote \<Rightarrow> driver \<Rightarrow> config \<Rightarrow> 'w env \<Rightarrow> (oauth_config promise \<times> driver) \<times> 'w env" where
  "authorizeWithCode api this data0 env =
     (case oAuth data0 of
        None \<Rightarrow>
          (case oAuth2Client this of
             None \<Rightarrow> ((Rejected (TypeError ''Cannot destructure undefined''), this), env)
           | Some c \<Rightarrow>
               ((Rejected (TypeError ''Cannot read property code of undefined''), this),
                logger info RetrievingAccessToken env))
      | Some data \<Rightarrow>
          (let client = (case oAuth2Client this of
                           None \<Rightarrow> new_OAuth2 (client_id data) (client_secret data)
                                     (redirect_uri data)
                         | Some c \<Rightarrow> c);
               this1 = this\<lparr>oAuth2Client := Some client\<rparr>;
               env1 = logger info RetrievingAccessToken env
           in case issue (GetToken (code data)) (\<lambda>w. getToken api w client (code data)) env1 of
                (Inl err, env2) \<Rightarrow>
                  ((Rejected (Value ''Error retrieving access token''), this1),
                   logger error (ErrorRetrievingAccessToken err) env2)
              | (Inr tok, env2) \<Rightarrow>
                  ((Resolved \<lparr>client_id = client_id data, client_secret = client_secret data,
                              redirect_uri = redirect_uri data, token = Some tok, code = None\<rparr>,
                    this1\<lparr>oAuth2Client := Some (setCredentials (Some tok) client)\<rparr>),
                   logger debug (TokenDump tok) (logger info GotAccessToken env2))))"

definition refreshToken_checked ::
  "('w, 'f) remote \<Rightarrow> int \<Rightarrow> oauth_client \<Rightarrow> 'w env \<Rightarrow> token option promise \<times> 'w env" where
  \<comment> \<open>lines 100 to 117, once \<open>this.oAuth2Client\<close> is there\<close>
  "refreshToken_checked api now client env =
     (case credentials client of
        None \<Rightarrow> (Rejected (TypeError ''Cannot read property expiry_date of undefined''), env)
      | Some cred \<Rightarrow>
          (let expiry = expiry_date cred;
               env1 = logger debug (TokenExpiryDate expiry) env
           in if (case expiry of None \<Rightarrow> False | Some e \<Rightarrow> now + 600000 < e)
              then (Resolved None, env1)
              else
                (case issue RefreshAccessToken (\<lambda>w. refreshAccessToken api w client)
                        (logger info RefreshingAccessToken env1) of
                   (Inl err, env2) \<Rightarrow>
                     (Rejected (Value ''Error refreshing access token''),
                      logger error (ErrorRefreshingAccessToken err) env2)
                 | (Inr tok, env2) \<Rightarrow>
                     (Resolved (Some tok),
                      logger debug (TokenDump tok) (logger info GotAccessToken env2)))))"

definition refresh_client :: "driver \<Rightarrow> config \<Rightarrow> oauth_client option" where
  \<comment> \<open>lines 88 to 98: the client after the block that creates a missing one, \<open>None\<close> when
      destructuring an undefined \<open>data.oAuth\<close> throws\<close>
  "refresh_client this data1 =
     (case oAuth2Client this of
        Some c \<Rightarrow> Some c
      | None \<Rightarrow>
          (case oAuth data1 of
             None \<Rightarrow> None
           | Some data \<Rightarrow>
               Some (setCredentials (token data)
                 (new_OAuth2 (client_id data) (client_secret data) (redirect_uri data)))))"

definition refreshToken ::
  "('w, 'f) remote \<Rightarrow> int \<Rightarrow> driver \<Rightarrow> config option \<Rightarrow> 'w env
     \<Rightarrow> (token option promise \<times> driver) \<times> 'w env" where
  "refreshToken api now this data0 env =
     (let data1 = (case data0 of None \<Rightarrow> this_data this | Some d \<Rightarrow> d)
      in case refresh_client this data1 of
           None \<Rightarrow> ((Rejected (TypeError ''Cannot destructure undefined''), this), env)
         | Some c \<Rightarrow>
             (case refreshToken_checked api now c env of
                (r, env') \<Rightarrow> ((r, this\<lparr>oAuth2Client := Some c\<rparr>), env')))"

definition onFailedAttempt :: "thrown \<Rightarrow> 'w env \<Rightarrow> 'w env" where
  "onFailedAttempt err env =
     logger error (AttemptFailed (attemptNumber err) (retriesLeft err)) env"

definition list_request ::
  "drive_config \<Rightarrow> string \<Rightarrow> string \<Rightarrow> string option \<Rightarrow> string option \<Rightarrow> list_params" where
  \<comment> \<open>lines 143 to 153\<close>
  "list_request d q selected orderBy pageToken =
     \<lparr>p_driveId = driveId d, p_corpora = ''drive'', p_includeItemsFromAllDrives = True,
      p_supportsTeamDrives = True, p_pageSize = 1000,
      p_orderBy = or_default orderBy ''modifiedTime desc'', p_q = q,
      p_fields = ''nextPageToken, files('' @ selected @ '')'',
      p_pageToken = (if truthy pageToken then pageToken else None)\<rparr>"

text \<open>
  The do-while loop of \<open>getFileList\<close> runs as long as the remote side hands out page
  tokens, so the model takes fuel: one unit for each turn of the loop, and \<open>None\<close> as
  the outcome when it runs out.
\<close>

fun getFileList_loop ::
  "nat \<Rightarrow> ('w, 'f) remote \<Rightarrow> driver \<Rightarrow> string \<Rightarrow> string \<Rightarrow> bool \<Rightarrow> string option
     \<Rightarrow> 'f list \<Rightarrow> string option \<Rightarrow> nat \<Rightarrow> 'w env
     \<Rightarrow> 'f list option promise option \<times> 'w env" where
  "getFileList_loop 0 api this q selected full orderBy data pageToken counter env = (None, env)"
| "getFileList_loop (Suc fuel) api this q selected full orderBy data pageToken counter env =
     (let env1 = logger debug (GettingPage counter) env
      in case drive (this_data this) of
           None \<Rightarrow>
             (Some (Rejected (TypeError ''Cannot read property driveId of undefined'')), env1)
         | Some d \<Rightarrow>
             (let params = list_request d q selected orderBy pageToken
              in case pRetry (issue (FilesList params) (\<lambda>w. files_list api w params))
                        onFailedAttempt 3 env1 of
                   (Inl err, env2) \<Rightarrow> (Some (Rejected err), env2)
                 | (Inr res, env2) \<Rightarrow>
                     (let pageToken' = (if truthy (nextPageToken res) \<and> full
                                        then nextPageToken res else None);
                          data' = data @ files res
                      in if truthy pageToken'
                         then getFileList_loop fuel api this q selected full orderBy data'
                                pageToken' (counter + 1) env2
                         else (Some (Resolved (Some data')),
                               logger info (GotMetadatas (length data')) env2))))"

definition getFileList ::
  "nat \<Rightarrow> ('w, 'f) remote \<Rightarrow> driver \<Rightarrow> string \<Rightarrow> string option \<Rightarrow> bool option \<Rightarrow> string option
     \<Rightarrow> 'w env \<Rightarrow> 'f list option promise option \<times> 'w env" where
  "getFileList fuel api this q fields0 full0 orderBy env =
     (let selected = or_default fields0 ''id, name, modifiedTime, parents, size'';
          full = (case full0 of None \<Rightarrow> False | Some b \<Rightarrow> b)
      in case checkAuthorizationStatus this env of
           (ok, env1) \<Rightarrow>
             if \<not> ok then (Some (Resolved None), env1)
             else getFileList_loop fuel api this q selected full orderBy [] None 1
                    (logger info (GettingFullFileList q) env1))"

definition get_request :: "drive_config \<Rightarrow> string \<Rightarrow> get_params" where
  \<comment> \<open>lines 188 to 197\<close>
  "get_request d fileId =
     \<lparr>g_corpora = ''drive'', g_includeItemsFromAllDrives = True, g_supportsTeamDrives = True,
      g_driveId = driveId d, g_alt = ''media'', g_fileId = fileId,
      g_responseType = ''arraybuffer''\<rparr>"

definition downloadFile ::
  "('w, 'f) remote \<Rightarrow> driver \<Rightarrow> string \<Rightarrow> 'w env \<Rightarrow> string option promise \<times> 'w env" where
  "downloadFile api this fileId env =
     (case checkAuthorizationStatus this env of
        (ok, env1) \<Rightarrow>
          if \<not> ok then (Resolved None, env1)
          else
            (case pRetry
                    (\<lambda>s. case drive (this_data this) of
                            None \<Rightarrow>
                              (Inl (TypeError ''Cannot read property driveId of undefined''), s)
                          | Some d \<Rightarrow>
                              issue (FilesGet (get_request d fileId))
                                (\<lambda>w. files_get api w (get_request d fileId)) s)
                    onFailedAttempt 3 (logger info (DownloadingFile fileId) env1) of
               (Inl err, env2) \<Rightarrow> (Rejected err, env2)
             | (Inr res, env2) \<Rightarrow> (Resolved (Some res), env2)))"

section \<open>A scripted remote side\<close>

text \<open>
  A remote side that answers from a script: each capability hands out the next reply
  of its list, and a connection error once the list is used up. The world is the
  three scripts.
\<close>

record 'f wire =
  list_replies :: "(thrown + 'f list_response) list"
  get_replies :: "(thrown + string) list"
  token_replies :: "(thrown + token) list"

definition next_reply :: "(thrown + 'r) list \<Rightarrow> (thrown + 'r) \<times> (thrown + 'r) list" where
  "next_reply rs =
     (case rs of [] \<Rightarrow> (Inl (Error ''ECONNRESET'' None), []) | r # rest \<Rightarrow> (r, rest))"

definition scripted :: "('f wire, 'f) remote" where
  "scripted =
     \<lparr>files_list = (\<lambda>w p. case next_reply (list_replies w) of
                              (r, rest) \<Rightarrow> (r, w\<lparr>list_replies := rest\<rparr>)),
      files_get = (\<lambda>w p. case next_reply (get_replies w) of
                             (r, rest) \<Rightarrow> (r, w\<lparr>get_replies := rest\<rparr>)),
      getToken = (\<lambda>w c code. case next_reply (token_replies w) of
                                  (r, rest) \<Rightarrow> (r, w\<lparr>token_replies := rest\<rparr>)),
      refreshAccessToken = (\<lambda>w c. case next_reply (token_replies w) of
                                      (r, rest) \<Rightarrow> (r, w\<lparr>token_replies := rest\<rparr>))\<rparr>"

definition transient :: "string list \<Rightarrow> (thrown + 'r) list" where
  "transient ms = map (\<lambda>m. Inl (Error m None)) ms"

text \<open>
  A chain of pages as the wire carries it: every page comes after the failed attempts
  (given by their messages) that the retry wrapper has to sit through to get it.
\<close>

fun chain :: "(string list \<times> 'f list_response) list \<Rightarrow> (thrown + 'f list_response) list" where
  "chain [] = []"
| "chain ((ms, page) # rest) = transient ms @ Inr page # chain rest"

text \<open>
  The requests such a chain calls for: every page is asked for with the token of the
  page before it (the first with the token given), once for each failed attempt and
  once more for the attempt that gets it.
\<close>

fun page_requests ::
  "drive_config \<Rightarrow> string \<Rightarrow> string \<Rightarrow> string option \<Rightarrow> string option
     \<Rightarrow> (string list \<times> 'f list_response) list \<Rightarrow> call list" where
  "page_requests d q selected orderBy pageToken [] = []"
| "page_requests d q selected orderBy pageToken ((ms, page) # rest) =
     replicate (Suc (length ms)) (FilesList (list_request d q selected orderBy pageToken))
       @ page_requests d q selected orderBy (nextPageToken page) rest"

definition decorated :: "nat \<Rightarrow> nat \<Rightarrow> string list \<Rightarrow> thrown list" where
  \<comment> \<open>the errors of attempts \<open>n, n + 1, ...\<close> as the retry wrapper records them\<close>
  "decorated retries n ms =
     map (\<lambda>(k, m). Error m (Some (k, int retries - (int k - 1)))) (zip [n ..< n + length ms] ms)"

definition issued :: "'w env \<Rightarrow> 'w env \<Rightarrow> call list" where
  \<comment> \<open>the network calls made between two states\<close>
  "issued env env' = drop (length (requests env)) (requests env')"

definition pages_fetched :: "'w env \<Rightarrow> nat" where
  \<comment> \<open>the turns of the paging loop so far: each one logs its page number once\<close>
  "pages_fetched env =
     length (filter (\<lambda>(l, m). case m of GettingPage n \<Rightarrow> True | _ \<Rightarrow> False) (logs env))"

definition env0 :: "'w \<Rightarrow> 'w env" where
  "env0 w = \<lparr>world = w, requests = [], logs = []\<rparr>"

definition sample_config :: config where
  "sample_config =
     \<lparr>oAuth = Some \<lparr>client_id = ''id'', client_secret = ''secret'', redirect_uri = ''uri'',
                     token = Some \<lparr>expiry_date = Some 2000000, payload = ''t0''\<rparr>,
                     code = Some ''c0''\<rparr>,
      drive = Some \<lparr>driveId = ''d0''\<rparr>\<rparr>"

definition sample_driver :: driver where
  "sample_driver = constructor 1 (Some sample_config)"

definition page1 :: "nat list_response" where
  "page1 = \<lparr>nextPageToken = Some ''t1'', files = [3, 1, 2]\<rparr>"

definition page2 :: "nat list_response" where
  "page2 = \<lparr>nextPageToken = None, files = [5, 4]\<rparr>"

definition sample_wire :: "nat wire" where
  \<comment> \<open>a listing of two pages, the first behind one failed attempt and the second behind
      two; a download that succeeds at its third attempt; one token reply\<close>
  "sample_wire =
     \<lparr>list_replies = chain [([''timeout''], page1), ([''reset'', ''timeout''], page2)],
      get_replies = transient [''reset'', ''reset''] @ [Inr ''PK''],
      token_replies = [Inr \<lparr>expiry_date = Some 9000000, payload = ''t1''\<rparr>]\<rparr>"

definition failing_wire :: "nat wire" where
  \<comment> \<open>one page, and then a page fetch that fails at each of its four attempts\<close>
  "failing_wire =
     \<lparr>list_replies = chain [([], page1)] @ transient [''timeout'', ''timeout'', ''timeout'', ''timeout''],
      get_replies = [],
      token_replies = [Inl (Error ''invalid_grant'' None)]\<rparr>"

section \<open>The retry wrapper: exhaustion\<close>

lemma mainError_loop_same:
  "es \<noteq> [] \<Longrightarrow> \<forall>e\<in>set es. message e = Some m \<Longrightarrow> mainCount \<le> counts (Some m) + 1
     \<Longrightarrow> mainError_loop es counts mainErr mainCount = Some (last es)"
proof (induction es arbitrary: counts mainErr mainCount)
  case Nil
  then show ?case by simp
next
  case (Cons e es)
  show ?case
  proof (cases "es = []")
    case True
    with Cons.prems show ?thesis by (simp add: Let_def)
  next
    case False
    have m: "message e = Some m" using Cons.prems by simp
    have "mainError_loop (e # es) counts mainErr mainCount
            = mainError_loop es (counts(Some m := counts (Some m) + 1)) (Some e) (counts (Some m) + 1)"
      using Cons.prems(3) m by (simp add: Let_def)
    also have "\<dots> = Some (last es)"
      using False Cons.prems(2) by (intro Cons.IH) simp_all
    finally show ?thesis using False by simp
  qed
qed

lemma reject_main_same:
  "es \<noteq> [] \<Longrightarrow> \<forall>e\<in>set es. message e = Some m \<Longrightarrow> reject_main es = last es"
  using mainError_loop_same [of es m 0 "\<lambda>m. 0" None]
  by (simp add: reject_main_def mainError_def)

lemma run_attempt_issue_Error:
  assumes "f (world env) = (Inl (Error m d), w)"
  shows "run_attempt (issue c f) onFailedAttempt r n env =
           (Failed (Error m (Some (n, int r - (int n - 1)))),
            env\<lparr>world := w, requests := requests env @ [c],
                logs := logs env @ [(error, AttemptFailed (Some n) (Some (int r - (int n - 1))))]\<rparr>)"
  using assms by (simp add: run_attempt_def issue_def onFailedAttempt_def logger_def)

lemma pRetry_from_all_fail:
  assumes "\<forall>w. \<exists>m d. fst (f w) = Inl (Error m d)"
  shows "\<exists>e env'. pRetry_from (issue c f) onFailedAttempt r t errs n env = (Inl e, env')
           \<and> requests env' = requests env @ replicate (Suc t) c
           \<and> logs env' = logs env @ map (\<lambda>k. (error, AttemptFailed (Some k) (Some (int r - (int k - 1))))) [n ..< n + Suc t]
           \<and> (\<forall>m. (\<forall>w. \<exists>d. fst (f w) = Inl (Error m d)) \<longrightarrow> (\<forall>x\<in>set errs. message x = Some m)
                 \<longrightarrow> e = Error m (Some (n + t, int r - (int (n + t) - 1))))"
proof (induction t arbitrary: errs n env)
  case 0
  obtain m d w where fw: "f (world env) = (Inl (Error m d), w)"
    using assms by (metis prod.collapse)
  show ?case
    apply (simp add: run_attempt_issue_Error [of f env, OF fw])
    apply (intro allI impI)
    subgoal for m'
      using fw by (auto simp: reject_main_same [where m = m'] dest: spec [where x = "world env"])
    done
next
  case (Suc t)
  obtain m d w where fw: "f (world env) = (Inl (Error m d), w)"
    using assms by (metis prod.collapse)
  let ?e = "Error m (Some (n, int r - (int n - 1)))"
  let ?env1 = "env\<lparr>world := w, requests := requests env @ [c],
                logs := logs env @ [(error, AttemptFailed (Some n) (Some (int r - (int n - 1))))]\<rparr>"
  obtain e env' where
    run: "pRetry_from (issue c f) onFailedAttempt r t (errs @ [?e]) (n + 1) ?env1 = (Inl e, env')"
    and req: "requests env' = requests ?env1 @ replicate (Suc t) c"
    and lg: "logs env' = logs ?env1 @ map (\<lambda>k. (error, AttemptFailed (Some k) (Some (int r - (int k - 1))))) [n + 1 ..< n + 1 + Suc t]"
    and same: "\<forall>m. (\<forall>w. \<exists>d. fst (f w) = Inl (Error m d)) \<longrightarrow> (\<forall>x\<in>set (errs @ [?e]). message x = Some m)
                 \<longrightarrow> e = Error m (Some (n + 1 + t, int r - (int (n + 1 + t) - 1)))"
    using Suc.IH [of "errs @ [?e]" "n + 1" ?env1] by blast
  have same': "\<forall>m'. (\<forall>w. \<exists>d. fst (f w) = Inl (Error m' d)) \<longrightarrow> (\<forall>x\<in>set errs. message x = Some m')
                 \<longrightarrow> e = Error m' (Some (n + Suc t, int r - (int (n + Suc t) - 1)))"
  proof (intro allI impI)
    fix m' assume a: "\<forall>w. \<exists>d. fst (f w) = Inl (Error m' d)" and b: "\<forall>x\<in>set errs. message x = Some m'"
    from a fw have "m = m'" by (auto dest: spec [where x = "world env"])
    with same a b show "e = Error m' (Some (n + Suc t, int r - (int (n + Suc t) - 1)))"
      by simp
  qed
  have step: "pRetry_from (issue c f) onFailedAttempt r (Suc t) errs n env = (Inl e, env')"
    using run by (simp add: run_attempt_issue_Error [of f env, OF fw])
  have upt: "[n ..< n + Suc (Suc t)] = n # [n + 1 ..< n + 1 + Suc t]"
    by (simp add: upt_conv_Cons del: upt_Suc)
  have req': "requests env' = requests env @ replicate (Suc (Suc t)) c"
    using req by simp
  have lg': "logs env' = logs env @ map (\<lambda>k. (error, AttemptFailed (Some k) (Some (int r - (int k - 1))))) [n ..< n + Suc (Suc t)]"
    unfolding upt using lg by simp
  show ?case
    using step req' lg' same' by blast
qed

lemma mainError_loop_member:
  "mainError_loop es counts mainErr mainCount = mainErr
     \<or> (\<exists>e\<in>set es. mainError_loop es counts mainErr mainCount = Some e)"
proof (induction es arbitrary: counts mainErr mainCount)
  case Nil
  then show ?case by simp
next
  case (Cons e es)
  let ?count = "counts (message e) + 1"
  let ?counts = "counts(message e := ?count)"
  show ?case
  proof (cases "?count \<ge> mainCount")
    case True
    then have eq: "mainError_loop (e # es) counts mainErr mainCount
                 = mainError_loop es ?counts (Some e) ?count"
      by (simp add: Let_def)
    show ?thesis
      using Cons.IH [of ?counts "Some e" ?count] unfolding eq
      by (metis list.set_intros(1) list.set_intros(2))
  next
    case False
    then have eq: "mainError_loop (e # es) counts mainErr mainCount
                 = mainError_loop es ?counts mainErr mainCount"
      by (simp add: Let_def)
    show ?thesis
      using Cons.IH [of ?counts mainErr mainCount] unfolding eq
      by (metis list.set_intros(2))
  qed
qed

lemma reject_main_member: "es \<noteq> [] \<Longrightarrow> reject_main es \<in> set es"
proof (cases es)
  case Nil
  assume "es \<noteq> []" with Nil show ?thesis by simp
next
  case (Cons e es')
  let ?counts = "(\<lambda>m. 0 :: nat)(message e := 1)"
  have "mainError (e # es') = mainError_loop es' ?counts (Some e) 1"
    by (simp add: mainError_def Let_def)
  with mainError_loop_member [of es' ?counts "Some e" 1] Cons show ?thesis
    by (auto simp: reject_main_def)
qed

lemma pRetry_from_all_fail_member:
  assumes "\<forall>w. \<exists>m d. fst (f w) = Inl (Error m d)"
    and "pRetry_from (issue c f) onFailedAttempt r t errs n env = (Inl e, env')"
  shows "e \<in> set errs
       \<or> (\<exists>k m d. n \<le> k \<and> k \<le> n + t
            \<and> fst (f (((\<lambda>w. snd (f w)) ^^ (k - n)) (world env))) = Inl (Error m d)
            \<and> e = Error m (Some (k, int r - (int k - 1))))"
  using assms(2)
proof (induction t arbitrary: errs n env)
  case 0
  obtain m d w where fw: "f (world env) = (Inl (Error m d), w)"
    using assms(1) by (metis prod.collapse)
  let ?e = "Error m (Some (n, int r - (int n - 1)))"
  have "e = reject_main (errs @ [?e])"
    using 0 by (simp add: run_attempt_issue_Error [of f env, OF fw])
  then have "e \<in> set (errs @ [?e])"
    using reject_main_member [of "errs @ [?e]"] by simp
  then consider (old) "e \<in> set errs" | (now) "e = ?e"
    by auto
  then show ?case
  proof cases
    case old
    then show ?thesis by simp
  next
    case now
    moreover have "fst (f (((\<lambda>w. snd (f w)) ^^ (n - n)) (world env))) = Inl (Error m d)"
      using fw by simp
    ultimately show ?thesis by (intro disjI2 exI [of _ n]) auto
  qed
next
  case (Suc t)
  obtain m d w where fw: "f (world env) = (Inl (Error m d), w)"
    using assms(1) by (metis prod.collapse)
  let ?e = "Error m (Some (n, int r - (int n - 1)))"
  let ?env1 = "env\<lparr>world := w, requests := requests env @ [c],
                logs := logs env @ [(error, AttemptFailed (Some n) (Some (int r - (int n - 1))))]\<rparr>"
  let ?g = "\<lambda>w. snd (f w)"
  have run: "pRetry_from (issue c f) onFailedAttempt r t (errs @ [?e]) (n + 1) ?env1 = (Inl e, env')"
    using Suc.prems by (simp add: run_attempt_issue_Error [of f env, OF fw])
  from Suc.IH [OF run] consider
      (old) "e \<in> set errs"
    | (now) "e = ?e"
    | (later) k m' d' where "n + 1 \<le> k" "k \<le> n + 1 + t"
        "fst (f ((?g ^^ (k - (n + 1))) (world ?env1))) = Inl (Error m' d')"
        "e = Error m' (Some (k, int r - (int k - 1)))"
    by auto
  then show ?case
  proof cases
    case old
    then show ?thesis by simp
  next
    case now
    moreover have "fst (f ((?g ^^ (n - n)) (world env))) = Inl (Error m d)"
      using fw by simp
    ultimately show ?thesis by (intro disjI2 exI [of _ n]) auto
  next
    case later
    have w: "world ?env1 = ?g (world env)" using fw by simp
    have "k - n = Suc (k - (n + 1))" using later(1) by simp
    then have "(?g ^^ (k - n)) (world env) = (?g ^^ (k - (n + 1))) (?g (world env))"
      using funpow_swap1 [of ?g "k - (n + 1)" "world env"] by simp
    with later w have "fst (f ((?g ^^ (k - n)) (world env))) = Inl (Error m' d')"
      by simp
    with later show ?thesis
      by (intro disjI2 exI [of _ k]) auto
  qed
qed

text \<open>
  C1, as amended. The driver passes \<open>retries: 3\<close>, and \<open>retries\<close> counts the attempts
  after the first one. An operation that fails on every invocation with an ordinary
  Error is invoked exactly \<open>retries + 1\<close> times (four times in the driver);
  \<open>onFailedAttempt\<close> runs after each failure, with \<open>attemptNumber\<close> going from 1 to
  \<open>retries + 1\<close> and \<open>retriesLeft\<close> from \<open>retries\<close> down to 0; then the wrapped call
  is rejected and yields no result. The rejection is never a wrapper: it is the very
  error that one of the attempts failed with (attempt \<open>k\<close> runs on the world that
  \<open>k - 1\<close> calls have left), decorated with that attempt's \<open>attemptNumber = k\<close> and
  \<open>retriesLeft = retries - (k - 1)\<close>. When every failure carries the same message, it
  is the error of the last attempt, with \<open>attemptNumber = retries + 1\<close> and
  \<open>retriesLeft = 0\<close>.
\<close>

theorem pRetry_always_failing:
  assumes "\<forall>w. \<exists>m d. fst (f w) = Inl (Error m d)"
  shows "\<exists>e env'. pRetry (issue c f) onFailedAttempt retries env = (Inl e, env')
           \<and> issued env env' = replicate (retries + 1) c
           \<and> logs env' = logs env @ map (\<lambda>k. (error, AttemptFailed (Some k) (Some (int retries - (int k - 1))))) [1 ..< retries + 2]
           \<and> (\<forall>m. (\<forall>w. \<exists>d. fst (f w) = Inl (Error m d)) \<longrightarrow> e = Error m (Some (retries + 1, 0)))
           \<and> (\<exists>k m d. 1 \<le> k \<and> k \<le> retries + 1
                \<and> fst (f (((\<lambda>w. snd (f w)) ^^ (k - 1)) (world env))) = Inl (Error m d)
                \<and> e = Error m (Some (k, int retries - (int k - 1))))"
proof -
  obtain e env' where
    run: "pRetry_from (issue c f) onFailedAttempt retries retries [] 1 env = (Inl e, env')"
    and req: "requests env' = requests env @ replicate (Suc retries) c"
    and lg: "logs env' = logs env @ map (\<lambda>k. (error, AttemptFailed (Some k) (Some (int retries - (int k - 1))))) [1 ..< 1 + Suc retries]"
    and same: "\<forall>m. (\<forall>w. \<exists>d. fst (f w) = Inl (Error m d)) \<longrightarrow> (\<forall>x\<in>set ([]::thrown list). message x = Some m)
                 \<longrightarrow> e = Error m (Some (1 + retries, int retries - (int (1 + retries) - 1)))"
    using pRetry_from_all_fail [OF assms, of c retries retries "[]" 1 env] by blast
  have "issued env env' = replicate (retries + 1) c"
    using req by (simp add: issued_def)
  moreover have "logs env' = logs env @ map (\<lambda>k. (error, AttemptFailed (Some k) (Some (int retries - (int k - 1))))) [1 ..< retries + 2]"
    using lg by simp
  moreover have "\<forall>m. (\<forall>w. \<exists>d. fst (f w) = Inl (Error m d)) \<longrightarrow> e = Error m (Some (retries + 1, 0))"
    using same by simp
  moreover have "\<exists>k m d. 1 \<le> k \<and> k \<le> retries + 1
                \<and> fst (f (((\<lambda>w. snd (f w)) ^^ (k - 1)) (world env))) = Inl (Error m d)
                \<and> e = Error m (Some (k, int retries - (int k - 1)))"
    using pRetry_from_all_fail_member [OF assms run] by simp
  ultimately show ?thesis
    using run unfolding pRetry_def by blast
qed

text \<open>C1, witness: an operation that always fails with the Error \<open>boom\<close>, at \<open>retries = 3\<close>.\<close>

theorem pRetry_always_failing_witness:
  "(\<forall>w::nat. \<exists>m d. fst (Inl (Error ''boom'' None) :: thrown + string, Suc w) = Inl (Error m d))
   \<and> (\<exists>env'. pRetry (issue RefreshAccessToken (\<lambda>w::nat. (Inl (Error ''boom'' None) :: thrown + string, Suc w)))
                 onFailedAttempt 3 (env0 0) = (Inl (Error ''boom'' (Some (4, 0))), env')
          \<and> issued (env0 0) env' = [RefreshAccessToken, RefreshAccessToken, RefreshAccessToken, RefreshAccessToken]
          \<and> world env' = 4)"
proof -
  have h: "\<forall>w::nat. \<exists>m d. fst (Inl (Error ''boom'' None) :: thrown + string, Suc w) = Inl (Error m d)"
    by simp
  have h': "\<forall>w::nat. \<exists>d. fst (Inl (Error ''boom'' None) :: thrown + string, Suc w) = Inl (Error ''boom'' d)"
    by simp
  obtain e env' where
    run: "pRetry (issue RefreshAccessToken (\<lambda>w::nat. (Inl (Error ''boom'' None) :: thrown + string, Suc w)))
                 onFailedAttempt 3 (env0 0) = (Inl e, env')"
    and iss: "issued (env0 0) env' = replicate (3 + 1) RefreshAccessToken"
    and same: "\<forall>m. (\<forall>w::nat. \<exists>d. fst (Inl (Error ''boom'' None) :: thrown + string, Suc w) = Inl (Error m d)) \<longrightarrow> e = Error m (Some (3 + 1, 0))"
    using pRetry_always_failing [OF h, of RefreshAccessToken 3 "env0 0"] by blast
  have e: "e = Error ''boom'' (Some (4, 0))"
    using same h' by simp
  have w: "world env' = 4"
    using run by (auto simp: pRetry_def run_attempt_def issue_def env0_def onFailedAttempt_def logger_def numeral_3_eq_3)
  show ?thesis
    using h run iss e w by (simp add: numeral_eq_Suc)
qed

text \<open>
  C1, counterexample: in the driver's configuration a download whose every attempt
  fails reaches the remote side four times, not three, before it is rejected; the
  fifth scripted reply is never asked for.
\<close>

theorem downloadFile_attempts_counterexample:
  "fst (downloadFile scripted (constructor 1 (Some sample_config)) ''file123''
         (env0 \<lparr>list_replies = [], get_replies = transient [''boom'', ''boom'', ''boom'',
            ''boom'', ''boom''], token_replies = []\<rparr>))
     = Rejected (Error ''boom'' (Some (4, 0)))
   \<and> length (requests (snd (downloadFile scripted (constructor 1 (Some sample_config))
         ''file123'' (env0 \<lparr>list_replies = [], get_replies = transient [''boom'', ''boom'',
            ''boom'', ''boom'', ''boom''], token_replies = []\<rparr>)))) = 4
   \<and> length (requests (snd (downloadFile scripted (constructor 1 (Some sample_config))
         ''file123'' (env0 \<lparr>list_replies = [], get_replies = transient [''boom'', ''boom'',
            ''boom'', ''boom'', ''boom''], token_replies = []\<rparr>)))) \<noteq> 3"
  by code_simp

text \<open>
  With messages that differ the rejection need not be the last error: of the failures
  \<open>a\<close>, \<open>a\<close>, \<open>b\<close>, \<open>c\<close> it is the second, whose message occurred most often.
\<close>

lemma downloadFile_mixed_messages:
  "fst (downloadFile scripted sample_driver ''file123''
         (env0 \<lparr>list_replies = [], get_replies = transient [''a'', ''a'', ''b'', ''c''],
                token_replies = []\<rparr>))
     = Rejected (Error ''a'' (Some (2, 2)))"
  by code_simp

section \<open>The requests of a listing\<close>

lemma run_attempt_issue_env:
  "run_attempt (issue c f) onFailedAttempt r n env = (a, env')
     \<Longrightarrow> requests env' = requests env @ [c] \<and> pages_fetched env' = pages_fetched env"
  by (auto simp: run_attempt_def issue_def onFailedAttempt_def logger_def pages_fetched_def
           split: prod.splits sum.splits thrown.splits)

lemma pRetry_from_issue_env:
  "pRetry_from (issue c f) onFailedAttempt r t errs n env = (res, env')
     \<Longrightarrow> \<exists>k. 1 \<le> k \<and> k \<le> Suc t \<and> requests env' = requests env @ replicate k c
              \<and> pages_fetched env' = pages_fetched env"
proof (induction t arbitrary: errs n env)
  case 0
  obtain a env1 where ra: "run_attempt (issue c f) onFailedAttempt r n env = (a, env1)"
    by (cases "run_attempt (issue c f) onFailedAttempt r n env")
  from run_attempt_issue_env [OF ra] 0 ra show ?case
    by (intro exI [of _ 1]) (auto split: attempt.splits)
next
  case (Suc t)
  obtain a env1 where ra: "run_attempt (issue c f) onFailedAttempt r n env = (a, env1)"
    by (cases "run_attempt (issue c f) onFailedAttempt r n env")
  note e1 = run_attempt_issue_env [OF ra]
  show ?case
  proof (cases a)
    case (Settled x)
    with Suc.prems ra e1 show ?thesis
      by (intro exI [of _ 1]) auto
  next
    case (Failed e)
    with Suc.prems ra have
      "pRetry_from (issue c f) onFailedAttempt r t (errs @ [e]) (n + 1) env1 = (res, env')"
      by simp
    from Suc.IH [OF this] obtain k where
      k: "1 \<le> k" "k \<le> Suc t" "requests env' = requests env1 @ replicate k c"
         "pages_fetched env' = pages_fetched env1"
      by blast
    with e1 show ?thesis
      by (intro exI [of _ "Suc k"]) (simp add: replicate_app_Cons_same)
  qed
qed

lemma pRetry_issue_env:
  "pRetry (issue c f) onFailedAttempt r env = (res, env')
     \<Longrightarrow> \<exists>k. 1 \<le> k \<and> k \<le> Suc r \<and> requests env' = requests env @ replicate k c
              \<and> pages_fetched env' = pages_fetched env"
  unfolding pRetry_def by (rule pRetry_from_issue_env)

lemma getFileList_loop_requests:
  "getFileList_loop fuel api this q sel full ob data tok n env = (res, env')
     \<Longrightarrow> \<exists>new. requests env' = requests env @ new
           \<and> (\<forall>c\<in>set new. \<exists>d t. drive (this_data this) = Some d
                  \<and> c = FilesList (list_request d q sel ob t))"
proof (induction fuel arbitrary: data tok n env)
  case 0
  then show ?case by simp
next
  case (Suc fuel)
  let ?env1 = "logger debug (GettingPage n) env"
  have r1: "requests ?env1 = requests env" by (simp add: logger_def)
  show ?case
  proof (cases "drive (this_data this)")
    case None
    with Suc.prems r1 show ?thesis by (auto simp: Let_def)
  next
    case (Some d)
    let ?p = "list_request d q sel ob tok"
    obtain r env2 where
      pr: "pRetry (issue (FilesList ?p) (\<lambda>w. files_list api w ?p)) onFailedAttempt 3 ?env1 = (r, env2)"
      by (cases "pRetry (issue (FilesList ?p) (\<lambda>w. files_list api w ?p)) onFailedAttempt 3 ?env1")
    from pRetry_issue_env [OF pr] r1 obtain k where
      k: "requests env2 = requests env @ replicate k (FilesList ?p)"
      by auto
    show ?thesis
    proof (cases r)
      case (Inl err)
      with Suc.prems Some pr k show ?thesis
        by (auto simp: Let_def intro!: exI [of _ "replicate k (FilesList ?p)"])
    next
      case (Inr page)
      let ?tok' = "if truthy (nextPageToken page) \<and> full then nextPageToken page else None"
      show ?thesis
      proof (cases "truthy ?tok'")
        case False
        with Suc.prems Some pr k Inr show ?thesis
          by (auto simp: Let_def logger_def intro!: exI [of _ "replicate k (FilesList ?p)"])
      next
        case True
        with Suc.prems Some pr Inr have
          "getFileList_loop fuel api this q sel full ob (data @ files page) ?tok' (n + 1) env2
             = (res, env')"
          by (simp add: Let_def)
        from Suc.IH [OF this] obtain new where
          new: "requests env' = requests env2 @ new"
               "\<forall>c\<in>set new. \<exists>d t. drive (this_data this) = Some d
                  \<and> c = FilesList (list_request d q sel ob t)"
          by blast
        with k Some show ?thesis
          by (intro exI [of _ "replicate k (FilesList ?p) @ new"]) auto
      qed
    qed
  qed
qed

lemma getFileList_requests:
  "getFileList fuel api this q fields0 full0 ob env = (res, env')
     \<Longrightarrow> \<exists>new. requests env' = requests env @ new
           \<and> (\<forall>c\<in>set new. \<exists>d t. drive (this_data this) = Some d
                  \<and> c = FilesList (list_request d q
                          (or_default fields0 ''id, name, modifiedTime, parents, size'') ob t))"
  unfolding getFileList_def Let_def checkAuthorizationStatus_def
  by (auto split: if_splits dest!: getFileList_loop_requests simp: logger_def)

text \<open>
  C9. Every page request that \<open>getFileList\<close> issues, at any page and in any run (also
  one cut short by the fuel), asks for a page size of 1000 and for the caller's
  \<open>orderBy\<close>, or for \<open>modifiedTime desc\<close> when the caller gave none; an empty string
  counts as none, as it does for the conditional operator of the source. The value is
  handed on as it is, and nothing in the driver sorts: see C2 for the order of the result.
\<close>

theorem getFileList_page_size_and_order:
  "\<forall>c\<in>set (issued env (snd (getFileList fuel api this q fields0 full0 orderBy env))).
     \<exists>p. c = FilesList p \<and> p_pageSize p = 1000
        \<and> p_orderBy p = (case orderBy of
                           None \<Rightarrow> ''modifiedTime desc''
                         | Some s \<Rightarrow> if s = [] then ''modifiedTime desc'' else s)"
proof -
  obtain res env' where g: "getFileList fuel api this q fields0 full0 orderBy env = (res, env')"
    by (cases "getFileList fuel api this q fields0 full0 orderBy env")
  from getFileList_requests [OF g] obtain new where
    new: "requests env' = requests env @ new"
         "\<forall>c\<in>set new. \<exists>d t. drive (this_data this) = Some d
            \<and> c = FilesList (list_request d q
                    (or_default fields0 ''id, name, modifiedTime, parents, size'') orderBy t)"
    by blast
  show ?thesis
    unfolding g
  proof (intro ballI)
    fix c assume "c \<in> set (issued env (snd (res, env')))"
    then have "c \<in> set new" using new(1) by (simp add: issued_def)
    with new(2) obtain d t where
      "c = FilesList (list_request d q
             (or_default fields0 ''id, name, modifiedTime, parents, size'') orderBy t)"
      by blast
    then show "\<exists>p. c = FilesList p \<and> p_pageSize p = 1000
        \<and> p_orderBy p = (case orderBy of
                           None \<Rightarrow> ''modifiedTime desc''
                         | Some s \<Rightarrow> if s = [] then ''modifiedTime desc'' else s)"
      by (simp add: list_request_def or_default_def)
  qed
qed

text \<open>
  C9, witness: a listing of two pages ordered by \<open>name\<close>; five requests go out, the
  first and the last one among them.
\<close>

theorem getFileList_page_size_and_order_witness:
  "length (issued (env0 sample_wire)
      (snd (getFileList 2 scripted sample_driver ''q'' None (Some True) (Some ''name'')
         (env0 sample_wire)))) = 5
   \<and> (\<exists>p. issued (env0 sample_wire)
            (snd (getFileList 2 scripted sample_driver ''q'' None (Some True) (Some ''name'')
               (env0 sample_wire))) ! 0 = FilesList p
          \<and> p_pageSize p = 1000 \<and> p_orderBy p = ''name'')
   \<and> (\<exists>p. issued (env0 sample_wire)
            (snd (getFileList 2 scripted sample_driver ''q'' None (Some True) (Some ''name'')
               (env0 sample_wire))) ! 4 = FilesList p
          \<and> p_pageSize p = 1000 \<and> p_orderBy p = ''name'')"
proof -
  let ?I = "issued (env0 sample_wire)
      (snd (getFileList 2 scripted sample_driver ''q'' None (Some True) (Some ''name'')
         (env0 sample_wire)))"
  have len: "length ?I = 5" by code_simp
  have all: "\<forall>c\<in>set ?I. \<exists>p. c = FilesList p \<and> p_pageSize p = 1000 \<and> p_orderBy p = ''name''"
    using getFileList_page_size_and_order [of "env0 sample_wire" 2 scripted sample_driver
        "''q''" None "Some True" "Some ''name''"]
    by simp
  have "?I ! 0 \<in> set ?I" and "?I ! 4 \<in> set ?I"
    using len by simp_all
  with all len show ?thesis by blast
qed

text \<open>
  C10. When \<open>fields\<close> is omitted or falsy the selector is
  \<open>id, name, modifiedTime, parents, size\<close>, and every page request asks for the field set
  \<open>nextPageToken, files(selector)\<close>, so the continuation token is always asked for.
\<close>

theorem getFileList_field_selector:
  "\<forall>c\<in>set (issued env (snd (getFileList fuel api this q fields0 full0 orderBy env))).
     \<exists>p. c = FilesList p
        \<and> p_fields p = ''nextPageToken, files('' @
            (case fields0 of
               None \<Rightarrow> ''id, name, modifiedTime, parents, size''
             | Some s \<Rightarrow> if s = [] then ''id, name, modifiedTime, parents, size'' else s) @ '')''"
proof -
  obtain res env' where g: "getFileList fuel api this q fields0 full0 orderBy env = (res, env')"
    by (cases "getFileList fuel api this q fields0 full0 orderBy env")
  from getFileList_requests [OF g] obtain new where
    new: "requests env' = requests env @ new"
         "\<forall>c\<in>set new. \<exists>d t. drive (this_data this) = Some d
            \<and> c = FilesList (list_request d q
                    (or_default fields0 ''id, name, modifiedTime, parents, size'') orderBy t)"
    by blast
  show ?thesis
    unfolding g
  proof (intro ballI)
    fix c assume "c \<in> set (issued env (snd (res, env')))"
    then have "c \<in> set new" using new(1) by (simp add: issued_def)
    with new(2) obtain d t where
      "c = FilesList (list_request d q
             (or_default fields0 ''id, name, modifiedTime, parents, size'') orderBy t)"
      by blast
    then show "\<exists>p. c = FilesList p \<and> p_fields p = ''nextPageToken, files('' @
            (case fields0 of
               None \<Rightarrow> ''id, name, modifiedTime, parents, size''
             | Some s \<Rightarrow> if s = [] then ''id, name, modifiedTime, parents, size'' else s) @ '')'' "
      by (simp add: list_request_def or_default_def)
  qed
qed

text \<open>
  C10, witness: a single page listing with the empty string as \<open>fields\<close>.
\<close>

theorem getFileList_field_selector_witness:
  "length (issued (env0 sample_wire)
      (snd (getFileList 1 scripted sample_driver ''q'' (Some []) None None
         (env0 sample_wire)))) = 2
   \<and> (\<exists>p. issued (env0 sample_wire)
            (snd (getFileList 1 scripted sample_driver ''q'' (Some []) None None
               (env0 sample_wire))) ! 1 = FilesList p
          \<and> p_fields p = ''nextPageToken, files(id, name, modifiedTime, parents, size)'')"
proof -
  let ?I = "issued (env0 sample_wire)
      (snd (getFileList 1 scripted sample_driver ''q'' (Some []) None None
         (env0 sample_wire)))"
  have len: "length ?I = 2" by code_simp
  have all: "\<forall>c\<in>set ?I. \<exists>p. c = FilesList p
               \<and> p_fields p = ''nextPageToken, files(id, name, modifiedTime, parents, size)''"
    using getFileList_field_selector [of "env0 sample_wire" 1 scripted sample_driver
        "''q''" "Some []" None None]
    by simp
  have "?I ! 1 \<in> set ?I"
    using len by simp
  with all len show ?thesis by blast
qed

section \<open>Authorization\<close>

text \<open>
  C4. While \<open>checkAuthorizationStatus\<close> is false, \<open>getFileList\<close> and \<open>downloadFile\<close>
  resolve with \<open>undefined\<close>; they log the complaint and leave the remote side and
  the list of network calls as they were.
\<close>

theorem unauthorized_is_silent:
  assumes "\<not> fst (checkAuthorizationStatus this env)"
  shows "getFileList fuel api this q fields0 full0 orderBy env
           = (Some (Resolved None), logger error HaventAuthorizeYet env)
       \<and> downloadFile api this fileId env = (Resolved None, logger error HaventAuthorizeYet env)
       \<and> issued env (logger error HaventAuthorizeYet env) = []
       \<and> world (logger error HaventAuthorizeYet env) = world env"
  using assms
  by (auto simp: getFileList_def downloadFile_def checkAuthorizationStatus_def issued_def
        logger_def Let_def split: if_splits)

text \<open>
  C4, witness: a driver constructed without any configuration.
\<close>

theorem unauthorized_is_silent_witness:
  "\<not> fst (checkAuthorizationStatus (constructor 1 None) (env0 sample_wire))
   \<and> getFileList 2 scripted (constructor 1 None) ''q'' None (Some True) None (env0 sample_wire)
       = (Some (Resolved None),
          \<lparr>world = sample_wire, requests = [], logs = [(error, HaventAuthorizeYet)]\<rparr>)
   \<and> downloadFile scripted (constructor 1 None) ''file123'' (env0 sample_wire)
       = (Resolved None,
          \<lparr>world = sample_wire, requests = [], logs = [(error, HaventAuthorizeYet)]\<rparr>)"
proof -
  have h: "\<not> fst (checkAuthorizationStatus (constructor 1 None) (env0 sample_wire))"
    by (simp add: checkAuthorizationStatus_def constructor_def Let_def)
  show ?thesis
    using h unauthorized_is_silent [OF h, of 2 scripted "''q''" None "Some True" None "''file123''"]
    by (simp add: logger_def env0_def)
qed

text \<open>
  C7, as amended. \<open>checkAuthorizationStatus\<close> is true exactly when both clients are
  there. Right after construction that is the case exactly when the configuration has
  both an \<open>oAuth\<close> and a \<open>drive\<close> section; without any configuration it is false.
  After a successful \<open>authorizeWithCode\<close> it is true exactly when the instance has a
  drive client, which only the constructor creates.
\<close>

theorem checkAuthorizationStatus_iff:
  "fst (checkAuthorizationStatus this env) = (oAuth2Client this \<noteq> None \<and> driveClient this \<noteq> None)
   \<and> fst (checkAuthorizationStatus (constructor i (Some data)) env)
        = (oAuth data \<noteq> None \<and> drive data \<noteq> None)
   \<and> \<not> fst (checkAuthorizationStatus (constructor i None) env)
   \<and> (fst (fst (authorizeWithCode api this data0 env)) = Resolved cfg
        \<longrightarrow> fst (checkAuthorizationStatus (snd (fst (authorizeWithCode api this data0 env))) env')
              = (driveClient this \<noteq> None))"
  by (auto simp: checkAuthorizationStatus_def constructor_def authorizeWithCode_def Let_def
        split: option.splits sum.splits prod.splits)

text \<open>
  C7, witness: an instance constructed with a \<open>drive\<close> section only is unauthorized
  before the code exchange and authorized after it.
\<close>

theorem checkAuthorizationStatus_iff_witness:
  "fst (fst (authorizeWithCode scripted
          (constructor 1 (Some \<lparr>oAuth = None, drive = Some \<lparr>driveId = ''d0''\<rparr>\<rparr>))
          sample_config (env0 sample_wire)))
     = Resolved \<lparr>client_id = ''id'', client_secret = ''secret'', redirect_uri = ''uri'',
                 token = Some \<lparr>expiry_date = Some 9000000, payload = ''t1''\<rparr>, code = None\<rparr>
   \<and> \<not> fst (checkAuthorizationStatus
          (constructor 1 (Some \<lparr>oAuth = None, drive = Some \<lparr>driveId = ''d0''\<rparr>\<rparr>))
          (env0 sample_wire))
   \<and> fst (checkAuthorizationStatus
          (snd (fst (authorizeWithCode scripted
             (constructor 1 (Some \<lparr>oAuth = None, drive = Some \<lparr>driveId = ''d0''\<rparr>\<rparr>))
             sample_config (env0 sample_wire))))
          (env0 sample_wire))"
proof -
  let ?drv = "constructor 1 (Some \<lparr>oAuth = None, drive = Some \<lparr>driveId = ''d0''\<rparr>\<rparr>)"
  let ?cfg = "\<lparr>client_id = ''id'', client_secret = ''secret'', redirect_uri = ''uri'',
                 token = Some \<lparr>expiry_date = Some 9000000, payload = ''t1''\<rparr>, code = None\<rparr>"
  have a: "fst (fst (authorizeWithCode scripted ?drv sample_config (env0 sample_wire)))
             = Resolved ?cfg"
    by code_simp
  have d: "driveClient ?drv \<noteq> None"
    by (simp add: constructor_def Let_def)
  have after: "fst (checkAuthorizationStatus
          (snd (fst (authorizeWithCode scripted ?drv sample_config (env0 sample_wire))))
          (env0 sample_wire)) = (driveClient ?drv \<noteq> None)"
    using checkAuthorizationStatus_iff [where this = ?drv and env = "env0 sample_wire"
        and i = 1 and data = "\<lparr>oAuth = None, drive = Some \<lparr>driveId = ''d0''\<rparr>\<rparr>"
        and api = scripted and ?data0.0 = sample_config and cfg = ?cfg
        and env' = "env0 sample_wire"] a
    by simp
  have before: "\<not> fst (checkAuthorizationStatus ?drv (env0 sample_wire))"
    by (simp add: checkAuthorizationStatus_def constructor_def Let_def)
  show ?thesis
    using a before after d by simp
qed

text \<open>
  C7, counterexample: on an instance constructed without a \<open>drive\<close> section the code
  exchange succeeds and binds the token, and \<open>checkAuthorizationStatus\<close> is still
  false.
\<close>

theorem authorized_after_binding_counterexample:
  "fst (fst (authorizeWithCode scripted (constructor 1 None) sample_config (env0 sample_wire)))
     = Resolved \<lparr>client_id = ''id'', client_secret = ''secret'', redirect_uri = ''uri'',
                 token = Some \<lparr>expiry_date = Some 9000000, payload = ''t1''\<rparr>, code = None\<rparr>
   \<and> map_option credentials
        (oAuth2Client (snd (fst (authorizeWithCode scripted (constructor 1 None) sample_config
           (env0 sample_wire)))))
       = Some (Some \<lparr>expiry_date = Some 9000000, payload = ''t1''\<rparr>)
   \<and> \<not> fst (checkAuthorizationStatus
          (snd (fst (authorizeWithCode scripted (constructor 1 None) sample_config
             (env0 sample_wire))))
          (snd (authorizeWithCode scripted (constructor 1 None) sample_config (env0 sample_wire))))"
  by code_simp

section \<open>Tokens\<close>

text \<open>
  C8. With an \<open>oAuth\<close> section at hand, \<open>authorizeWithCode\<close> calls \<open>getToken\<close> exactly
  once, with the code of the section. When the provider answers with an error the
  promise is rejected at once with \<open>Error retrieving access token\<close>; when it answers
  with a token, the token becomes the client's credentials and the promise resolves
  with the configuration: client id, client secret, redirect URI and the token.
\<close>

theorem authorizeWithCode_single_attempt:
  assumes "oAuth data0 = Some data"
    and "client = (case oAuth2Client this of
                     None \<Rightarrow> new_OAuth2 (client_id data) (client_secret data) (redirect_uri data)
                   | Some c \<Rightarrow> c)"
  shows "issued env (snd (authorizeWithCode api this data0 env)) = [GetToken (code data)]
       \<and> fst (authorizeWithCode api this data0 env)
           = (case fst (getToken api (world env) client (code data)) of
                Inl err \<Rightarrow>
                  (Rejected (Value ''Error retrieving access token''),
                   this\<lparr>oAuth2Client := Some client\<rparr>)
              | Inr tok \<Rightarrow>
                  (Resolved \<lparr>client_id = client_id data, client_secret = client_secret data,
                             redirect_uri = redirect_uri data, token = Some tok, code = None\<rparr>,
                   this\<lparr>oAuth2Client := Some (client\<lparr>credentials := Some tok\<rparr>)\<rparr>))"
  using assms
  by (cases "getToken api (world env) client (code data)")
     (auto simp: authorizeWithCode_def Let_def issued_def logger_def issue_def
        setCredentials_def split: option.splits sum.splits prod.splits)

text \<open>
  C8, witness: one exchange that succeeds and one that the provider rejects.
\<close>

theorem authorizeWithCode_single_attempt_witness:
  "issued (env0 sample_wire)
      (snd (authorizeWithCode scripted (constructor 1 None) sample_config (env0 sample_wire)))
     = [GetToken (Some ''c0'')]
   \<and> fst (fst (authorizeWithCode scripted (constructor 1 None) sample_config (env0 sample_wire)))
       = Resolved \<lparr>client_id = ''id'', client_secret = ''secret'', redirect_uri = ''uri'',
                   token = Some \<lparr>expiry_date = Some 9000000, payload = ''t1''\<rparr>, code = None\<rparr>
   \<and> issued (env0 failing_wire)
      (snd (authorizeWithCode scripted (constructor 1 None) sample_config (env0 failing_wire)))
     = [GetToken (Some ''c0'')]
   \<and> fst (fst (authorizeWithCode scripted (constructor 1 None) sample_config (env0 failing_wire)))
       = Rejected (Value ''Error retrieving access token'')"
proof -
  let ?data = "\<lparr>client_id = ''id'', client_secret = ''secret'', redirect_uri = ''uri'',
                 token = Some \<lparr>expiry_date = Some 2000000, payload = ''t0''\<rparr>,
                 code = Some ''c0''\<rparr>"
  have h1: "oAuth sample_config = Some ?data" by (simp add: sample_config_def)
  have r1: "fst (getToken scripted (world (env0 sample_wire)) c (code ?data))
             = Inr \<lparr>expiry_date = Some 9000000, payload = ''t1''\<rparr>" for c
    by (simp add: scripted_def env0_def sample_wire_def next_reply_def)
  have r2: "fst (getToken scripted (world (env0 failing_wire)) c (code ?data))
             = Inl (Error ''invalid_grant'' None)" for c
    by (simp add: scripted_def env0_def failing_wire_def next_reply_def)
  show ?thesis
    using authorizeWithCode_single_attempt [OF h1 refl, where this = "constructor 1 None"
        and env = "env0 sample_wire" and api = scripted]
      authorizeWithCode_single_attempt [OF h1 refl, where this = "constructor 1 None"
        and env = "env0 failing_wire" and api = scripted]
      r1 r2
    by simp
qed

text \<open>
  C5. With a client that holds credentials, \<open>refreshToken\<close> resolves with \<open>undefined\<close>
  and makes no network call when \<open>now + 600000\<close> is strictly below the stored expiry
  date; in every other case (the two equal, the expiry date passed or missing) it
  calls \<open>refreshAccessToken\<close> exactly once.
\<close>

theorem refreshToken_skew:
  assumes "refresh_client this (case data0 of None \<Rightarrow> this_data this | Some d \<Rightarrow> d) = Some c"
    and "credentials c = Some cred"
  shows "if (\<exists>e. expiry_date cred = Some e \<and> now + 600000 < e)
         then refreshToken api now this data0 env
                = ((Resolved None, this\<lparr>oAuth2Client := Some c\<rparr>),
                   logger debug (TokenExpiryDate (expiry_date cred)) env)
              \<and> issued env (snd (refreshToken api now this data0 env)) = []
              \<and> world (snd (refreshToken api now this data0 env)) = world env
         else issued env (snd (refreshToken api now this data0 env)) = [RefreshAccessToken]
              \<and> fst (fst (refreshToken api now this data0 env))
                  = (case fst (refreshAccessToken api (world env) c) of
                       Inl err \<Rightarrow> Rejected (Value ''Error refreshing access token'')
                     | Inr tok \<Rightarrow> Resolved (Some tok))"
  using assms
  by (cases "refreshAccessToken api (world env) c")
     (auto simp: refreshToken_def refreshToken_checked_def Let_def issued_def logger_def
        issue_def split: option.splits sum.splits prod.splits)

text \<open>
  C5, witness: a token that expires at 2000000, asked about at 1000000 and at 1400000.
\<close>

theorem refreshToken_skew_witness:
  "fst (fst (refreshToken scripted 1000000 sample_driver None (env0 sample_wire))) = Resolved None
   \<and> issued (env0 sample_wire)
        (snd (refreshToken scripted 1000000 sample_driver None (env0 sample_wire))) = []
   \<and> issued (env0 sample_wire)
        (snd (refreshToken scripted 1400000 sample_driver None (env0 sample_wire)))
       = [RefreshAccessToken]
   \<and> fst (fst (refreshToken scripted 1400000 sample_driver None (env0 sample_wire)))
       = Resolved (Some \<lparr>expiry_date = Some 9000000, payload = ''t1''\<rparr>)"
proof -
  let ?c = "\<lparr>c_client_id = ''id'', c_client_secret = ''secret'', c_redirect_uri = ''uri'',
             credentials = Some \<lparr>expiry_date = Some 2000000, payload = ''t0''\<rparr>\<rparr>"
  let ?cred = "\<lparr>expiry_date = Some 2000000, payload = ''t0''\<rparr>"
  have h1: "refresh_client sample_driver
              (case None of None \<Rightarrow> this_data sample_driver | Some d \<Rightarrow> d) = Some ?c"
    by (simp add: refresh_client_def sample_driver_def constructor_def sample_config_def Let_def
          setCredentials_def new_OAuth2_def)
  have h2: "credentials ?c = Some ?cred" by simp
  have r: "fst (refreshAccessToken scripted (world (env0 sample_wire)) ?c)
             = Inr \<lparr>expiry_date = Some 9000000, payload = ''t1''\<rparr>"
    by (simp add: scripted_def env0_def sample_wire_def next_reply_def)
  show ?thesis
    using refreshToken_skew [OF h1 h2, of 1000000 scripted "env0 sample_wire"]
      refreshToken_skew [OF h1 h2, of 1400000 scripted "env0 sample_wire"] r
    by (simp add: issued_def logger_def env0_def)
qed

section \<open>Paging\<close>

lemma sample_driver_authorized:
  "oAuth2Client sample_driver \<noteq> None" "driveClient sample_driver \<noteq> None"
  "drive (this_data sample_driver) = Some \<lparr>driveId = ''d0''\<rparr>"
  by (simp_all add: sample_driver_def constructor_def sample_config_def Let_def)

lemma run_attempt_scripted_fail:
  assumes "list_replies (world env) = Inl (Error m None) # rest"
  shows "run_attempt (issue c (\<lambda>w. files_list scripted w p)) onFailedAttempt r n env =
           (Failed (Error m (Some (n, int r - (int n - 1)))),
            env\<lparr>world := (world env)\<lparr>list_replies := rest\<rparr>, requests := requests env @ [c],
                logs := logs env @ [(error, AttemptFailed (Some n) (Some (int r - (int n - 1))))]\<rparr>)"
  using assms
  by (simp add: run_attempt_def issue_def onFailedAttempt_def logger_def scripted_def
        next_reply_def)

lemma run_attempt_scripted_page:
  assumes "list_replies (world env) = Inr page # rest"
  shows "run_attempt (issue c (\<lambda>w. files_list scripted w p)) onFailedAttempt r n env =
           (Settled (Inr page),
            env\<lparr>world := (world env)\<lparr>list_replies := rest\<rparr>, requests := requests env @ [c]\<rparr>)"
  using assms
  by (simp add: run_attempt_def issue_def scripted_def next_reply_def)

lemma pRetry_from_scripted_page:
  assumes "list_replies (world env) = transient ms @ Inr page # rest" and "length ms \<le> t"
  shows "\<exists>env'. pRetry_from (issue c (\<lambda>w. files_list scripted w p)) onFailedAttempt r t errs n env
                  = (Inr page, env')
           \<and> list_replies (world env') = rest
           \<and> requests env' = requests env @ replicate (Suc (length ms)) c
           \<and> pages_fetched env' = pages_fetched env"
  using assms
proof (induction ms arbitrary: t errs n env)
  case Nil
  then have "list_replies (world env) = Inr page # rest" by (simp add: transient_def)
  from run_attempt_scripted_page [OF this, of c p r n] show ?case
    by (cases t) (simp_all add: pages_fetched_def)
next
  case (Cons m ms)
  then obtain t' where t: "t = Suc t'" "length ms \<le> t'"
    by (cases t) auto
  have hd: "list_replies (world env) = Inl (Error m None) # (transient ms @ Inr page # rest)"
    using Cons.prems(1) by (simp add: transient_def)
  let ?env1 = "env\<lparr>world := (world env)\<lparr>list_replies := transient ms @ Inr page # rest\<rparr>,
                    requests := requests env @ [c],
                    logs := logs env @ [(error, AttemptFailed (Some n) (Some (int r - (int n - 1))))]\<rparr>"
  have "list_replies (world ?env1) = transient ms @ Inr page # rest" by simp
  from Cons.IH [OF this t(2), of "errs @ [Error m (Some (n, int r - (int n - 1)))]" "n + 1"]
  obtain env' where
    run: "pRetry_from (issue c (\<lambda>w. files_list scripted w p)) onFailedAttempt r t'
            (errs @ [Error m (Some (n, int r - (int n - 1)))]) (n + 1) ?env1 = (Inr page, env')"
    and rest: "list_replies (world env') = rest"
    and req: "requests env' = requests ?env1 @ replicate (Suc (length ms)) c"
    and pf: "pages_fetched env' = pages_fetched ?env1"
    by blast
  have pf1: "pages_fetched ?env1 = pages_fetched env"
    by (simp add: pages_fetched_def)
  have step: "pRetry_from (issue c (\<lambda>w. files_list scripted w p)) onFailedAttempt r t errs n env
                = (Inr page, env')"
    using run by (simp add: t(1) run_attempt_scripted_fail [OF hd])
  have req': "requests env' = requests env @ replicate (Suc (length (m # ms))) c"
    using req by simp
  show ?case
    using step rest req' pf pf1 by auto
qed

lemma decorated_Cons:
  "decorated r n (m # ms) = Error m (Some (n, int r - (int n - 1))) # decorated r (Suc n) ms"
  by (simp add: decorated_def upt_conv_Cons del: upt_Suc)

lemma pRetry_from_scripted_fail:
  assumes "list_replies (world env) = transient ms @ rest" and "length ms = Suc t"
  shows "\<exists>env'. pRetry_from (issue c (\<lambda>w. files_list scripted w p)) onFailedAttempt r t errs n env
                  = (Inl (reject_main (errs @ decorated r n ms)), env')
           \<and> list_replies (world env') = rest
           \<and> requests env' = requests env @ replicate (Suc t) c"
  using assms
proof (induction t arbitrary: ms errs n env)
  case 0
  then obtain m where ms: "ms = [m]"
    by (cases ms) auto
  have hd: "list_replies (world env) = Inl (Error m None) # rest"
    using 0(1) by (simp add: ms transient_def)
  show ?case
    by (simp add: run_attempt_scripted_fail [OF hd] ms decorated_Cons decorated_def)
next
  case (Suc t)
  then obtain m ms' where ms: "ms = m # ms'" "length ms' = Suc t"
    by (cases ms) auto
  have hd: "list_replies (world env) = Inl (Error m None) # (transient ms' @ rest)"
    using Suc.prems(1) by (simp add: ms transient_def)
  let ?env1 = "env\<lparr>world := (world env)\<lparr>list_replies := transient ms' @ rest\<rparr>,
                    requests := requests env @ [c],
                    logs := logs env @ [(error, AttemptFailed (Some n) (Some (int r - (int n - 1))))]\<rparr>"
  have "list_replies (world ?env1) = transient ms' @ rest" by simp
  from Suc.IH [OF this ms(2), of "errs @ [Error m (Some (n, int r - (int n - 1)))]" "Suc n"]
  obtain env' where
    run: "pRetry_from (issue c (\<lambda>w. files_list scripted w p)) onFailedAttempt r t
            (errs @ [Error m (Some (n, int r - (int n - 1)))]) (Suc n) ?env1
          = (Inl (reject_main ((errs @ [Error m (Some (n, int r - (int n - 1)))])
               @ decorated r (Suc n) ms')), env')"
    and rest: "list_replies (world env') = rest"
    and req: "requests env' = requests ?env1 @ replicate (Suc t) c"
    by blast
  have step: "pRetry_from (issue c (\<lambda>w. files_list scripted w p)) onFailedAttempt r (Suc t) errs n env
                = (Inl (reject_main (errs @ decorated r n ms)), env')"
    using run by (simp add: run_attempt_scripted_fail [OF hd] ms(1) decorated_Cons)
  have req': "requests env' = requests env @ replicate (Suc (Suc t)) c"
    using req by simp
  show ?case
    using step rest req' by blast
qed

lemma getFileList_loop_chain:
  assumes "drive (this_data this) = Some d"
    and "pages \<noteq> []"
    and "\<forall>x\<in>set pages. length (fst x) \<le> 3"
    and "\<forall>x\<in>set (butlast pages). truthy (nextPageToken (snd x))"
    and "\<not> truthy (nextPageToken (snd (last pages)))"
    and "length pages \<le> fuel"
    and "list_replies (world env) = chain pages @ rest"
  shows "\<exists>env'. getFileList_loop fuel scripted this q sel True ob data tok n env
                  = (Some (Resolved (Some (data @ concat (map (\<lambda>x. files (snd x)) pages)))), env')
           \<and> list_replies (world env') = rest
           \<and> pages_fetched env' = pages_fetched env + length pages
           \<and> requests env' = requests env @ page_requests d q sel ob tok pages"
  using assms(2-)
proof (induction pages arbitrary: fuel data tok n env)
  case Nil
  then show ?case by simp
next
  case (Cons x xs)
  obtain ms page where x: "x = (ms, page)" by (cases x)
  obtain f where fuel: "fuel = Suc f" "length xs \<le> f"
    using Cons.prems(5) by (cases fuel) auto
  let ?env1 = "logger debug (GettingPage n) env"
  let ?p = "list_request d q sel ob tok"
  have w1: "list_replies (world ?env1) = transient ms @ Inr page # (chain xs @ rest)"
    using Cons.prems(6) by (simp add: x logger_def)
  have ms: "length ms \<le> 3" using Cons.prems(2) by (simp add: x)
  from pRetry_from_scripted_page [OF w1 ms, of "FilesList ?p" ?p 3 "[]" 1]
  obtain env2 where
    pr: "pRetry (issue (FilesList ?p) (\<lambda>w. files_list scripted w ?p)) onFailedAttempt 3 ?env1
           = (Inr page, env2)"
    and w2: "list_replies (world env2) = chain xs @ rest"
    and rq2: "requests env2 = requests ?env1 @ replicate (Suc (length ms)) (FilesList ?p)"
    and pf2: "pages_fetched env2 = pages_fetched ?env1"
    unfolding pRetry_def by blast
  have pf1: "pages_fetched ?env1 = pages_fetched env + 1"
    by (simp add: pages_fetched_def logger_def)
  have rq1: "requests ?env1 = requests env"
    by (simp add: logger_def)
  show ?case
  proof (cases "xs = []")
    case True
    then have last: "\<not> truthy (nextPageToken page)"
      using Cons.prems(4) by (simp add: x)
    let ?env' = "logger info (GotMetadatas (length (data @ files page))) env2"
    have "getFileList_loop fuel scripted this q sel True ob data tok n env
            = (Some (Resolved (Some (data @ files page))), ?env')"
      using assms(1) pr last by (simp add: fuel(1) Let_def truthy_def)
    moreover have "list_replies (world ?env') = rest"
      using w2 True by (simp add: logger_def)
    moreover have "pages_fetched ?env' = pages_fetched env + 1"
      using pf2 pf1 by (simp add: pages_fetched_def logger_def)
    moreover have "requests ?env' = requests env @ page_requests d q sel ob tok [x]"
      using rq2 rq1 by (simp add: logger_def x)
    ultimately show ?thesis
      using True x by simp
  next
    case False
    then have more: "truthy (nextPageToken page)"
      using Cons.prems(3) by (simp add: x)
    have step: "getFileList_loop fuel scripted this q sel True ob data tok n env
            = getFileList_loop f scripted this q sel True ob (data @ files page)
                (nextPageToken page) (n + 1) env2"
      using assms(1) pr more by (simp add: fuel(1) Let_def)
    have p2: "\<forall>x\<in>set xs. length (fst x) \<le> 3" using Cons.prems(2) by simp
    have p3: "\<forall>x\<in>set (butlast xs). truthy (nextPageToken (snd x))"
      using Cons.prems(3) False by simp
    have p4: "\<not> truthy (nextPageToken (snd (last xs)))"
      using Cons.prems(4) False by simp
    from Cons.IH [OF False p2 p3 p4 fuel(2) w2, of "data @ files page" "nextPageToken page" "n + 1"]
    obtain env' where
      run: "getFileList_loop f scripted this q sel True ob (data @ files page)
              (nextPageToken page) (n + 1) env2
            = (Some (Resolved (Some ((data @ files page) @ concat (map (\<lambda>x. files (snd x)) xs)))), env')"
      and w': "list_replies (world env') = rest"
      and pf': "pages_fetched env' = pages_fetched env2 + length xs"
      and rq': "requests env' = requests env2
                  @ page_requests d q sel ob (nextPageToken page) xs"
      by blast
    have "requests env' = requests env @ page_requests d q sel ob tok (x # xs)"
      using rq' rq2 rq1 by (simp add: x)
    moreover have "pages_fetched env' = pages_fetched env + length (x # xs)"
      using pf' pf2 pf1 by simp
    ultimately show ?thesis
      using step run w' x by simp
  qed
qed

lemma getFileList_loop_chain_fail:
  assumes "drive (this_data this) = Some d"
    and "\<forall>x\<in>set pages. length (fst x) \<le> 3 \<and> truthy (nextPageToken (snd x))"
    and "length fails = 4"
    and "length pages < fuel"
    and "list_replies (world env) = chain pages @ transient fails @ rest"
  shows "\<exists>env'. getFileList_loop fuel scripted this q sel True ob data tok n env
                  = (Some (Rejected (reject_main (decorated 3 1 fails))), env')
           \<and> list_replies (world env') = rest
           \<and> length (requests env') = length (requests env) + length (chain pages) + 4"
  using assms(2-)
proof (induction pages arbitrary: fuel data tok n env)
  case Nil
  obtain f where fuel: "fuel = Suc f"
    using Nil.prems(3) by (cases fuel) auto
  let ?env1 = "logger debug (GettingPage n) env"
  let ?p = "list_request d q sel ob tok"
  have w1: "list_replies (world ?env1) = transient fails @ rest"
    using Nil.prems(4) by (simp add: logger_def)
  have len: "length fails = Suc 3" using Nil.prems(2) by simp
  from pRetry_from_scripted_fail [OF w1 len, of "FilesList ?p" ?p 3 "[]" 1]
  obtain env2 where
    pr: "pRetry (issue (FilesList ?p) (\<lambda>w. files_list scripted w ?p)) onFailedAttempt 3 ?env1
           = (Inl (reject_main (decorated 3 1 fails)), env2)"
    and w2: "list_replies (world env2) = rest"
    and rq2: "requests env2 = requests ?env1 @ replicate (Suc 3) (FilesList ?p)"
    unfolding pRetry_def by auto
  have "getFileList_loop fuel scripted this q sel True ob data tok n env
          = (Some (Rejected (reject_main (decorated 3 1 fails))), env2)"
    using assms(1) pr by (simp add: fuel Let_def)
  moreover have "length (requests env2) = length (requests env) + length (chain []) + 4"
    using rq2 by (simp add: logger_def)
  ultimately show ?case
    using w2 by blast
next
  case (Cons x xs)
  obtain ms page where x: "x = (ms, page)" by (cases x)
  obtain f where fuel: "fuel = Suc f" "length xs < f"
    using Cons.prems(3) by (cases fuel) auto
  let ?env1 = "logger debug (GettingPage n) env"
  let ?p = "list_request d q sel ob tok"
  have w1: "list_replies (world ?env1) = transient ms @ Inr page # (chain xs @ transient fails @ rest)"
    using Cons.prems(4) by (simp add: x logger_def)
  have ms: "length ms \<le> 3" and more: "truthy (nextPageToken page)"
    using Cons.prems(1) by (simp_all add: x)
  from pRetry_from_scripted_page [OF w1 ms, of "FilesList ?p" ?p 3 "[]" 1]
  obtain env2 where
    pr: "pRetry (issue (FilesList ?p) (\<lambda>w. files_list scripted w ?p)) onFailedAttempt 3 ?env1
           = (Inr page, env2)"
    and w2: "list_replies (world env2) = chain xs @ transient fails @ rest"
    and rq2: "requests env2 = requests ?env1 @ replicate (Suc (length ms)) (FilesList ?p)"
    unfolding pRetry_def by blast
  have step: "getFileList_loop fuel scripted this q sel True ob data tok n env
          = getFileList_loop f scripted this q sel True ob (data @ files page)
              (nextPageToken page) (n + 1) env2"
    using assms(1) pr more by (simp add: fuel(1) Let_def)
  have p1: "\<forall>x\<in>set xs. length (fst x) \<le> 3 \<and> truthy (nextPageToken (snd x))"
    using Cons.prems(1) by simp
  from Cons.IH [OF p1 Cons.prems(2) fuel(2) w2, of "data @ files page" "nextPageToken page" "n + 1"]
  obtain env' where
    run: "getFileList_loop f scripted this q sel True ob (data @ files page)
            (nextPageToken page) (n + 1) env2
          = (Some (Rejected (reject_main (decorated 3 1 fails))), env')"
    and w': "list_replies (world env') = rest"
    and rq': "length (requests env') = length (requests env2) + length (chain xs) + 4"
    by blast
  have "length (requests env') = length (requests env) + length (chain (x # xs)) + 4"
    using rq' rq2 by (simp add: x transient_def logger_def)
  then show ?case
    using step run w' by simp
qed

text \<open>
  C3. With \<open>full\<close> false or omitted, an authorized listing is one turn of the loop
  whatever the fuel: one retried fetch of the first page (no page token), whose files
  are the result whether or not the response carries a \<open>nextPageToken\<close>. The loop
  ends there; the one fetch reaches the remote side between one and four times.
\<close>

theorem single_page_when_not_full:
  assumes "oAuth2Client this \<noteq> None" and "driveClient this \<noteq> None"
    and "drive (this_data this) = Some d"
    and "full0 = None \<or> full0 = Some False"
    and "P = list_request d q (or_default fields0 ''id, name, modifiedTime, parents, size'')
               orderBy None"
  shows "getFileList (Suc fuel) api this q fields0 full0 orderBy env
           = (case pRetry (issue (FilesList P) (\<lambda>w. files_list api w P)) onFailedAttempt 3
                     (logger debug (GettingPage 1) (logger info (GettingFullFileList q) env)) of
                (Inl err, env2) \<Rightarrow> (Some (Rejected err), env2)
              | (Inr page, env2) \<Rightarrow>
                  (Some (Resolved (Some (files page))),
                   logger info (GotMetadatas (length (files page))) env2))
       \<and> fst (getFileList (Suc fuel) api this q fields0 full0 orderBy env) \<noteq> None
       \<and> pages_fetched (snd (getFileList (Suc fuel) api this q fields0 full0 orderBy env))
           = pages_fetched env + 1
       \<and> (\<exists>k. 1 \<le> k \<and> k \<le> 4
             \<and> issued env (snd (getFileList (Suc fuel) api this q fields0 full0 orderBy env))
                 = replicate k (FilesList P))"
proof -
  let ?env1 = "logger debug (GettingPage 1) (logger info (GettingFullFileList q) env)"
  let ?G = "getFileList (Suc fuel) api this q fields0 full0 orderBy env"
  obtain r env2 where
    pr: "pRetry (issue (FilesList P) (\<lambda>w. files_list api w P)) onFailedAttempt 3 ?env1 = (r, env2)"
    by (cases "pRetry (issue (FilesList P) (\<lambda>w. files_list api w P)) onFailedAttempt 3 ?env1")
  have full: "(case full0 of None \<Rightarrow> False | Some b \<Rightarrow> b) = False"
    using assms(4) by auto
  have eq: "?G = (case r of Inl err \<Rightarrow> (Some (Rejected err), env2)
                  | Inr page \<Rightarrow> (Some (Resolved (Some (files page))),
                      logger info (GotMetadatas (length (files page))) env2))"
    using assms(1-3) pr full
    by (simp add: getFileList_def checkAuthorizationStatus_def Let_def assms(5) truthy_def
          split: sum.splits)
  from pRetry_issue_env [OF pr] obtain k where
    k: "1 \<le> k" "k \<le> 4" "requests env2 = requests ?env1 @ replicate k (FilesList P)"
       "pages_fetched env2 = pages_fetched ?env1"
    by auto
  have pf: "pages_fetched ?env1 = pages_fetched env + 1"
    by (simp add: pages_fetched_def logger_def)
  have rq: "requests ?env1 = requests env"
    by (simp add: logger_def)
  have c1: "?G = (case pRetry (issue (FilesList P) (\<lambda>w. files_list api w P)) onFailedAttempt 3 ?env1 of
                (Inl err, env2) \<Rightarrow> (Some (Rejected err), env2)
              | (Inr page, env2) \<Rightarrow>
                  (Some (Resolved (Some (files page))),
                   logger info (GotMetadatas (length (files page))) env2))"
    unfolding eq pr by (simp split: sum.splits)
  have c2: "fst ?G \<noteq> None"
    unfolding eq by (simp split: sum.splits)
  have c3: "pages_fetched (snd ?G) = pages_fetched env + 1"
    unfolding eq using k(4) pf by (simp add: pages_fetched_def logger_def split: sum.splits)
  have c4: "issued env (snd ?G) = replicate k (FilesList P)"
    unfolding eq using k(3) rq by (simp add: issued_def logger_def split: sum.splits)
  show ?thesis
    using c1 c2 c3 c4 k(1,2) by blast
qed

text \<open>
  C3, witness: the first page of the sample wire carries a token and sits behind one
  failed attempt.
\<close>

theorem single_page_when_not_full_witness:
  "fst (getFileList 1 scripted sample_driver ''q'' None None None (env0 sample_wire))
     = Some (Resolved (Some [3, 1, 2]))
   \<and> pages_fetched (snd (getFileList 1 scripted sample_driver ''q'' None None None
        (env0 sample_wire))) = 1
   \<and> length (issued (env0 sample_wire) (snd (getFileList 1 scripted sample_driver ''q'' None None
        None (env0 sample_wire)))) = 2"
proof -
  have h4: "(None :: bool option) = None \<or> (None :: bool option) = Some False" by simp
  note T = single_page_when_not_full [OF sample_driver_authorized h4 refl,
      of 0 scripted "''q''" None None "env0 sample_wire"]
  have p0: "pages_fetched (env0 sample_wire) = 0"
    by (simp add: pages_fetched_def env0_def)
  have v: "fst (getFileList 1 scripted sample_driver ''q'' None None None (env0 sample_wire))
     = Some (Resolved (Some [3, 1, 2]))"
    by code_simp
  have n: "length (issued (env0 sample_wire) (snd (getFileList 1 scripted sample_driver ''q''
        None None None (env0 sample_wire)))) = 2"
    by code_simp
  show ?thesis
    using T [THEN conjunct2, THEN conjunct2, THEN conjunct1] p0 v n by simp
qed

text \<open>
  C2. With \<open>full\<close> true, over a chain of pages of which each but the last carries a
  (non-empty) \<open>nextPageToken\<close> and the last carries none, each page behind at most three
  failed attempts, the listing returns (with fuel for every page) the files of the
  pages, concatenated in page order and in the order within each page; it has fetched
  exactly these pages and consumed exactly their replies, asking for each page with the
  token of the page before it.
\<close>

theorem getFileList_full_concatenates:
  assumes "oAuth2Client this \<noteq> None" and "driveClient this \<noteq> None"
    and "drive (this_data this) = Some d"
    and "pages \<noteq> []"
    and "\<forall>x\<in>set pages. length (fst x) \<le> 3"
    and "\<forall>x\<in>set (butlast pages). truthy (nextPageToken (snd x))"
    and "\<not> truthy (nextPageToken (snd (last pages)))"
    and "length pages \<le> fuel"
    and "list_replies (world env) = chain pages @ rest"
  shows "fst (getFileList fuel scripted this q fields0 (Some True) orderBy env)
           = Some (Resolved (Some (concat (map (\<lambda>x. files (snd x)) pages))))
       \<and> list_replies (world (snd (getFileList fuel scripted this q fields0 (Some True) orderBy env)))
           = rest
       \<and> pages_fetched (snd (getFileList fuel scripted this q fields0 (Some True) orderBy env))
           = pages_fetched env + length pages
       \<and> issued env (snd (getFileList fuel scripted this q fields0 (Some True) orderBy env))
           = page_requests d q (or_default fields0 ''id, name, modifiedTime, parents, size'')
               orderBy None pages"
proof -
  let ?env1 = "logger info (GettingFullFileList q) env"
  let ?sel = "or_default fields0 ''id, name, modifiedTime, parents, size''"
  have w1: "list_replies (world ?env1) = chain pages @ rest"
    using assms(9) by (simp add: logger_def)
  have pf1: "pages_fetched ?env1 = pages_fetched env"
    by (simp add: pages_fetched_def logger_def)
  have rq1: "requests ?env1 = requests env"
    by (simp add: logger_def)
  have g: "getFileList fuel scripted this q fields0 (Some True) orderBy env
             = getFileList_loop fuel scripted this q ?sel True orderBy [] None 1 ?env1"
    using assms(1,2) by (auto simp: getFileList_def checkAuthorizationStatus_def Let_def)
  from getFileList_loop_chain [OF assms(3-8) w1, of q ?sel orderBy "[]" None 1]
  show ?thesis
    unfolding g using pf1 rq1 by (auto simp: issued_def)
qed

text \<open>
  C2, witness: the two pages of the sample wire.
\<close>

theorem getFileList_full_concatenates_witness:
  "fst (getFileList 2 scripted sample_driver ''q'' None (Some True) None (env0 sample_wire))
     = Some (Resolved (Some [3, 1, 2, 5, 4]))
   \<and> list_replies (world (snd (getFileList 2 scripted sample_driver ''q'' None (Some True) None
        (env0 sample_wire)))) = []
   \<and> pages_fetched (snd (getFileList 2 scripted sample_driver ''q'' None (Some True) None
        (env0 sample_wire))) = 2"
proof -
  let ?pages = "[([''timeout''], page1), ([''reset'', ''timeout''], page2)]"
  have h4: "?pages \<noteq> []" by simp
  have h5: "\<forall>x\<in>set ?pages. length (fst x) \<le> 3" by simp
  have h6: "\<forall>x\<in>set (butlast ?pages). truthy (nextPageToken (snd x))"
    by (simp add: page1_def truthy_def)
  have h7: "\<not> truthy (nextPageToken (snd (last ?pages)))"
    by (simp add: page2_def truthy_def)
  have h8: "length ?pages \<le> 2" by simp
  have h9: "list_replies (world (env0 sample_wire)) = chain ?pages @ []"
    by (simp add: env0_def sample_wire_def)
  have p0: "pages_fetched (env0 sample_wire) = 0"
    by (simp add: pages_fetched_def env0_def)
  show ?thesis
    using getFileList_full_concatenates [OF sample_driver_authorized h4 h5 h6 h7 h8 h9,
        of "''q''" None None] p0
    by (simp add: page1_def page2_def)
qed

text \<open>
  C6. With \<open>full\<close> true, when after any number of good pages a page fetch fails at
  all of its four attempts, the listing is rejected with the error that the retry
  wrapper rejects with, and the files of the earlier pages are not returned.
\<close>

theorem getFileList_full_aborts:
  assumes "oAuth2Client this \<noteq> None" and "driveClient this \<noteq> None"
    and "drive (this_data this) = Some d"
    and "\<forall>x\<in>set pages. length (fst x) \<le> 3 \<and> truthy (nextPageToken (snd x))"
    and "length fails = 4"
    and "length pages < fuel"
    and "list_replies (world env) = chain pages @ transient fails @ rest"
  shows "fst (getFileList fuel scripted this q fields0 (Some True) orderBy env)
           = Some (Rejected (reject_main (decorated 3 1 fails)))
       \<and> list_replies (world (snd (getFileList fuel scripted this q fields0 (Some True) orderBy env)))
           = rest"
proof -
  let ?env1 = "logger info (GettingFullFileList q) env"
  let ?sel = "or_default fields0 ''id, name, modifiedTime, parents, size''"
  have w1: "list_replies (world ?env1) = chain pages @ transient fails @ rest"
    using assms(7) by (simp add: logger_def)
  have g: "getFileList fuel scripted this q fields0 (Some True) orderBy env
             = getFileList_loop fuel scripted this q ?sel True orderBy [] None 1 ?env1"
    using assms(1,2) by (auto simp: getFileList_def checkAuthorizationStatus_def Let_def)
  from getFileList_loop_chain_fail [OF assms(3-6) w1, of q ?sel orderBy "[]" None 1]
  show ?thesis
    unfolding g by auto
qed

text \<open>
  C6, witness: one good page, and then a page fetch that times out four times.
\<close>

theorem getFileList_full_aborts_witness:
  "fst (getFileList 2 scripted sample_driver ''q'' None (Some True) None (env0 failing_wire))
     = Some (Rejected (Error ''timeout'' (Some (4, 0))))
   \<and> list_replies (world (snd (getFileList 2 scripted sample_driver ''q'' None (Some True) None
        (env0 failing_wire)))) = []"
proof -
  let ?pages = "[([], page1)]"
  let ?fails = "[''timeout'', ''timeout'', ''timeout'', ''timeout'']"
  have h4: "\<forall>x\<in>set ?pages. length (fst x) \<le> 3 \<and> truthy (nextPageToken (snd x))"
    by (simp add: page1_def truthy_def)
  have h5: "length ?fails = 4" by simp
  have h6: "length ?pages < 2" by simp
  have h7: "list_replies (world (env0 failing_wire)) = chain ?pages @ transient ?fails @ []"
    by (simp add: env0_def failing_wire_def)
  have e: "reject_main (decorated 3 1 ?fails) = Error ''timeout'' (Some (4, 0))"
    by code_simp
  show ?thesis
    using getFileList_full_aborts [OF sample_driver_authorized h4 h5 h6 h7, of "''q''" None None] e
    by simp
qed

end
